theory Spec2Isabelle
  imports Main
begin

section \<open>The device allocator of the GPU tuning notebook\<close>

text \<open>
  The class \<open>Objective\<close> of \<open>xgboost/parallel-hp-tuning-with-gpus.ipynb\<close> keeps one
  counter per GPU in the list \<open>gpu_status\<close>. \<open>get_next_gpu\<close> picks a device and
  increments its counter; the last statement but one of \<open>__call__\<close> decrements it. Python
  integers are unbounded, so counters are \<open>int\<close>; list positions produced by
  \<open>enumerate\<close> are \<open>nat\<close>.
\<close>

subsection \<open>Data\<close>

text \<open>
  The exceptions that can leave the modelled code: an index outside a list, the read of a
  local name that was never bound, and whatever the external training or scoring call raises.
\<close>

datatype error = IndexError | UnboundLocalError | TrialError

text \<open>The fields of \<open>Objective\<close> that the allocator reads or writes.\<close>

record objective =
  use_gpus :: bool
  num_gpus :: int
  gpu_status :: "int list"

text \<open>
  \<open>__init__\<close>: \<open>self.num_gpus = num_gpus or 1\<close> replaces both \<open>None\<close> and \<open>0\<close> by 1;
  \<open>[0 for _ in range(self.num_gpus)]\<close> is empty for a negative number.
\<close>

definition Objective_init :: "bool \<Rightarrow> int option \<Rightarrow> objective" where
  "Objective_init use n =
     (let k = (case n of None \<Rightarrow> 1 | Some m \<Rightarrow> if m = 0 then 1 else m)
      in \<lparr>use_gpus = use, num_gpus = k, gpu_status = replicate (nat k) 0\<rparr>)"

subsection \<open>Acquire: \<open>get_next_gpu\<close>\<close>

text \<open>
  The inner function \<open>_find_gpu\<close>: the \<open>for\<close> loop over \<open>enumerate(self.gpu_status)\<close>
  stops at the first counter that is at most \<open>min_stat\<close>; \<open>find_gpu_from\<close> carries the
  position that \<open>enumerate\<close> counts.
\<close>

fun find_gpu_from :: "nat \<Rightarrow> int list \<Rightarrow> int \<Rightarrow> nat option" where
  "find_gpu_from gpu_id [] min_stat = None"
| "find_gpu_from gpu_id (stat # rest) min_stat =
     (if stat \<le> min_stat then Some gpu_id else find_gpu_from (Suc gpu_id) rest min_stat)"

definition find_gpu :: "objective \<Rightarrow> int \<Rightarrow> nat option" where
  "find_gpu self min_stat = find_gpu_from 0 (gpu_status self) min_stat"

text \<open>
  The \<open>while (next_gpu is None)\<close> loop. Its body assigns \<open>next_gpu\<close> only: \<open>min_stat\<close>
  keeps the value it enters with, and every round searches with \<open>min_stat + 1\<close>. A loop
  that never leaves is the value \<open>None\<close>.
\<close>

partial_function (option) find_loop :: "objective \<Rightarrow> int \<Rightarrow> nat option \<Rightarrow> nat option" where
  "find_loop self min_stat next_gpu =
     (case next_gpu of
        None \<Rightarrow> find_loop self min_stat (find_gpu self (min_stat + 1))
      | Some g \<Rightarrow> Some g)"

declare find_loop.simps [code]

text \<open>
  \<open>xs[i] += d\<close> on a Python list: a negative index counts from the end, an index outside
  \<open>[-len, len)\<close> raises and leaves the list as it was.
\<close>

definition status_add :: "int list \<Rightarrow> int \<Rightarrow> int \<Rightarrow> error + int list" where
  "status_add xs i d =
     (if 0 \<le> i \<and> i < int (length xs)
      then Inr (xs[nat i := xs ! nat i + d])
      else if i < 0 \<and> - int (length xs) \<le> i
      then Inr (xs[nat (int (length xs) + i) := xs ! nat (int (length xs) + i) + d])
      else Inl IndexError)"

text \<open>
  A method either returns a value or raises; in both cases it leaves the object in some
  state, which is the second component of its result.
\<close>

type_synonym 'a outcome = "(error + 'a) \<times> objective"

text \<open>
  \<open>get_next_gpu\<close>: run the loop from \<open>next_gpu = None\<close>, \<open>min_stat = 0\<close>, then
  \<open>self.gpu_status[next_gpu] += 1\<close> and return the position. The result is \<open>None\<close>
  when the loop never leaves.
\<close>

definition get_next_gpu :: "objective \<Rightarrow> nat outcome option" where
  "get_next_gpu self =
     (case find_loop self 0 None of
        None \<Rightarrow> None
      | Some next_gpu \<Rightarrow>
          Some (case status_add (gpu_status self) (int next_gpu) 1 of
                  Inl e \<Rightarrow> (Inl e, self)
                | Inr st \<Rightarrow> (Inr next_gpu, self\<lparr>gpu_status := st\<rparr>)))"

subsection \<open>Release and the trial\<close>

text \<open>The statement \<open>self.gpu_status[gpu_id] -= 1\<close> of \<open>__call__\<close>.\<close>

definition release :: "objective \<Rightarrow> int \<Rightarrow> unit outcome" where
  "release self gpu_id =
     (case status_add (gpu_status self) gpu_id (- 1) of
        Inl e \<Rightarrow> (Inl e, self)
      | Inr st \<Rightarrow> (Inr (), self\<lparr>gpu_status := st\<rparr>))"

text \<open>
  \<open>__call__\<close>. The hyperparameters are sampled before any device is taken and do not
  touch the counters. The classifier's construction, \<open>fit\<close> and \<open>score\<close> are external:
  their joint outcome \<open>trained\<close> is either an exception or the score. There is no
  \<open>try\<close> in the method, so an exception leaves it at once, with the object as it is at
  that point. The name \<open>gpu_id\<close> is bound only under \<open>if self.use_gpus\<close>.
\<close>

definition Objective_call :: "objective \<Rightarrow> error + 's \<Rightarrow> 's outcome option" where
  "Objective_call self trained =
     (if use_gpus self then
        (case get_next_gpu self of
           None \<Rightarrow> None
         | Some (Inl e, self1) \<Rightarrow> Some (Inl e, self1)
         | Some (Inr gpu_id, self1) \<Rightarrow>
             Some (case trained of
                     Inl e \<Rightarrow> (Inl e, self1)
                   | Inr score \<Rightarrow>
                       (case release self1 (int gpu_id) of
                          (Inl e, self2) \<Rightarrow> (Inl e, self2)
                        | (Inr u, self2) \<Rightarrow> (Inr score, self2))))
      else
        Some (case trained of
                Inl e \<Rightarrow> (Inl e, self)
              | Inr score \<Rightarrow> (Inl UnboundLocalError, self)))"

subsection \<open>Sequences of calls\<close>

text \<open>
  The executor that runs the trials is external. A schedule is the order in which the
  acquisitions and the releases reach the object; \<open>Release d\<close> is the decrement with
  \<open>gpu_id = d\<close>. Besides the object, a trace records the ids handed out, in order, and
  the leases outstanding; \<open>misused\<close> is set by a release of an id with no outstanding
  lease. These three fields are bookkeeping: the object's own code never reads them.
\<close>

datatype event = Acquire | Release int

record trace =
  pool :: objective
  returns :: "nat list"
  leases :: "int list"
  misused :: bool

definition start :: "objective \<Rightarrow> trace" where
  "start p = \<lparr>pool = p, returns = [], leases = [], misused = False\<rparr>"

fun run :: "event list \<Rightarrow> trace \<Rightarrow> (error + trace) option" where
  "run [] t = Some (Inr t)"
| "run (Acquire # es) t =
     (case get_next_gpu (pool t) of
        None \<Rightarrow> None
      | Some (Inl e, p) \<Rightarrow> Some (Inl e)
      | Some (Inr g, p) \<Rightarrow>
          run es (t\<lparr>pool := p, returns := returns t @ [g], leases := int g # leases t\<rparr>))"
| "run (Release d # es) t =
     (case release (pool t) d of
        (Inl e, p) \<Rightarrow> Some (Inl e)
      | (Inr u, p) \<Rightarrow>
          run es (t\<lparr>pool := p, leases := remove1 d (leases t),
                    misused := (misused t \<or> d \<notin> set (leases t))\<rparr>))"

text \<open>The number of acquisitions of a schedule less the number of its releases.\<close>

fun active :: "event list \<Rightarrow> int" where
  "active [] = 0"
| "active (Acquire # es) = active es + 1"
| "active (Release d # es) = active es - 1"

text \<open>
  What the specification asks of the device that an acquisition returns: its counter is
  the least of the pool, and it is the first such device.
\<close>

definition least_loaded :: "int list \<Rightarrow> nat \<Rightarrow> bool" where
  "least_loaded st g \<longleftrightarrow>
     g < length st \<and> list_all (\<lambda>x. st ! g \<le> x) st \<and> list_all (\<lambda>x. st ! g < x) (take g st)"

text \<open>What a run shows from outside: the ids returned, in order, and the counters at the end.\<close>

definition observed :: "(error + trace) option \<Rightarrow> (nat list \<times> int list) option" where
  "observed r =
     (case r of
        Some (Inr t) \<Rightarrow> Some (returns t, gpu_status (pool t))
      | _ \<Rightarrow> None)"

text \<open>
  The counters agree with the bookkeeping: each counter is the number of outstanding
  leases on its device, and every outstanding lease names a device of the pool.
\<close>

definition accounted :: "trace \<Rightarrow> bool" where
  "accounted t \<longleftrightarrow>
     (\<forall>i<length (gpu_status (pool t)).
         gpu_status (pool t) ! i = int (count_list (leases t) (int i))) \<and>
     (\<forall>d\<in>set (leases t). 0 \<le> d \<and> d < int (length (gpu_status (pool t))))"

section \<open>The search and the loop\<close>

lemma find_gpu_from_None: "find_gpu_from i xs m = None \<longleftrightarrow> (\<forall>x\<in>set xs. m < x)"
  by (induction xs arbitrary: i) auto

lemma find_gpu_from_SomeD:
  "find_gpu_from i xs m = Some g \<Longrightarrow>
     \<exists>d. g = i + d \<and> d < length xs \<and> xs ! d \<le> m \<and> (\<forall>k<d. m < xs ! k)"
proof (induction xs arbitrary: i)
  case Nil
  then show ?case by simp
next
  case (Cons x xs)
  show ?case
  proof (cases "x \<le> m")
    case True
    with Cons.prems have "g = i" by simp
    with True show ?thesis by (intro exI [of _ 0]) simp
  next
    case False
    with Cons.prems have "find_gpu_from (Suc i) xs m = Some g" by simp
    from Cons.IH [OF this] obtain d where
      d: "g = Suc i + d" "d < length xs" "xs ! d \<le> m" "\<forall>k<d. m < xs ! k" by blast
    have "\<forall>k<Suc d. m < (x # xs) ! k"
      using d(4) False by (auto simp: nth_Cons' less_Suc_eq_0_disj)
    with d(1-3) show ?thesis by (intro exI [of _ "Suc d"]) simp
  qed
qed

text \<open>A loop that was entered with no device in hand can only return what one search finds.\<close>

lemma find_loop_result:
  assumes "find_loop self m ng = Some y"
  shows "ng = Some y \<or> (ng = None \<and> find_gpu self (m + 1) = Some y)"
  by (induct rule: find_loop.raw_induct [OF _ assms]) (auto split: option.splits)

lemma find_loop_None: "find_loop self m None = find_gpu self (m + 1)"
proof (cases "find_gpu self (m + 1)")
  case None
  have "find_loop self m None \<noteq> Some y" for y
    using find_loop_result [of self m None y] None by auto
  then show ?thesis using None by (cases "find_loop self m None") auto
next
  case (Some g)
  then show ?thesis by (simp add: find_loop.simps)
qed


section \<open>What an acquisition does\<close>

lemma get_next_gpu_None:
  "get_next_gpu self = None \<longleftrightarrow> (\<forall>x\<in>set (gpu_status self). 1 < x)"
proof -
  have "get_next_gpu self = None \<longleftrightarrow> find_gpu_from 0 (gpu_status self) 1 = None"
    by (simp add: get_next_gpu_def find_loop_None find_gpu_def split: option.splits)
  then show ?thesis by (simp only: find_gpu_from_None)
qed

lemma status_add_in_range:
  "g < length xs \<Longrightarrow> status_add xs (int g) d = Inr (xs[g := xs ! g + d])"
  by (simp add: status_add_def)

lemma get_next_gpu_SomeD:
  assumes "get_next_gpu self = Some r"
  shows "\<exists>g. r = (Inr g, self\<lparr>gpu_status := (gpu_status self)[g := gpu_status self ! g + 1]\<rparr>)
           \<and> g < length (gpu_status self) \<and> gpu_status self ! g \<le> 1
           \<and> (\<forall>k<g. 1 < gpu_status self ! k)"
proof -
  from assms obtain g where g: "find_gpu_from 0 (gpu_status self) 1 = Some g"
    by (auto simp: get_next_gpu_def find_loop_None find_gpu_def split: option.splits)
  from find_gpu_from_SomeD [OF g] have
    *: "g < length (gpu_status self)" "gpu_status self ! g \<le> 1"
       "\<forall>k<g. 1 < gpu_status self ! k"
    by auto
  from assms g
  have "r = (Inr g, self\<lparr>gpu_status := (gpu_status self)[g := gpu_status self ! g + 1]\<rparr>)"
    by (simp add: get_next_gpu_def find_loop_None find_gpu_def status_add_in_range [OF *(1)])
  with * show ?thesis by blast
qed

lemma get_next_gpu_SomeI:
  assumes "\<exists>x\<in>set (gpu_status self). x \<le> 1"
  shows "\<exists>r. get_next_gpu self = Some r"
  using assms get_next_gpu_None [of self] by (cases "get_next_gpu self") auto

text \<open>Evaluation on a given pool: one search decides.\<close>

lemma get_next_gpu_eval:
  "get_next_gpu self =
     (case find_gpu_from 0 (gpu_status self) 1 of
        None \<Rightarrow> None
      | Some g \<Rightarrow>
          Some (case status_add (gpu_status self) (int g) 1 of
                  Inl e \<Rightarrow> (Inl e, self)
                | Inr st \<Rightarrow> (Inr g, self\<lparr>gpu_status := st\<rparr>)))"
  by (simp add: get_next_gpu_def find_loop_None find_gpu_def)

lemma release_after_acquire:
  assumes "g < length (gpu_status self)"
  shows "release (self\<lparr>gpu_status := (gpu_status self)[g := gpu_status self ! g + 1]\<rparr>) (int g)
           = (Inr (), self)"
  using assms by (simp add: release_def status_add_def)

lemma least_loaded_iff:
  "least_loaded st g \<longleftrightarrow>
     g < length st \<and> (\<forall>k<length st. st ! g \<le> st ! k) \<and> (\<forall>k<g. st ! g < st ! k)"
  by (auto simp: least_loaded_def list_all_length)

section \<open>Runs\<close>

lemma init_one:
  "Objective_init use (Some 1) = \<lparr>use_gpus = use, num_gpus = 1, gpu_status = [0]\<rparr>"
  by (simp add: Objective_init_def)

lemma init_two:
  "Objective_init use (Some 2) = \<lparr>use_gpus = use, num_gpus = 2, gpu_status = [0, 0]\<rparr>"
  by (simp add: Objective_init_def numeral_2_eq_2)

text \<open>On one device, the third acquisition in a row finds the counter at 2.\<close>

lemma acquire_third:
  "run (Acquire # Acquire # Acquire # es) (start (Objective_init use (Some 1))) = None"
  by (simp add: init_one start_def get_next_gpu_eval status_add_def)

subsection \<open>The counters and the outstanding leases\<close>

lemma count_list_remove1:
  "count_list (remove1 d ls) x = (if x = d then count_list ls x - 1 else count_list ls x)"
  by (induction ls) auto

lemma accounted_start: "accounted (start (Objective_init use n))"
  by (simp add: accounted_def start_def Objective_init_def Let_def)

lemma accounted_acquire:
  assumes "accounted t" and "get_next_gpu (pool t) = Some (Inr g, p)"
  shows "accounted (t\<lparr>pool := p, returns := returns t @ [g], leases := int g # leases t\<rparr>)"
proof -
  from get_next_gpu_SomeD [OF assms(2)] have
    p: "p = (pool t)\<lparr>gpu_status := (gpu_status (pool t))[g := gpu_status (pool t) ! g + 1]\<rparr>"
    and g: "g < length (gpu_status (pool t))"
    by auto
  show ?thesis
    using assms(1) g unfolding accounted_def p
    by (auto simp: nth_list_update)
qed

lemma accounted_release:
  assumes "accounted t" and "d \<in> set (leases t)" and "release (pool t) d = (r, p)"
  shows "r = Inr () \<and> accounted (t\<lparr>pool := p, leases := remove1 d (leases t), misused := b\<rparr>)"
proof -
  from assms(1,2) have d: "0 \<le> d" "d < int (length (gpu_status (pool t)))"
    by (auto simp: accounted_def)
  with assms(3) have
    r: "r = Inr ()" and
    p: "p = (pool t)\<lparr>gpu_status := (gpu_status (pool t))[nat d := gpu_status (pool t) ! nat d - 1]\<rparr>"
    by (auto simp: release_def status_add_def Let_def)
  have pos: "0 < count_list (leases t) d"
    using assms(2) by (meson count_list_0_iff gr0I)
  have "gpu_status p ! i = int (count_list (remove1 d (leases t)) (int i))"
    if "i < length (gpu_status p)" for i
  proof (cases "int i = d")
    case True
    then have "i = nat d" by simp
    with that assms(1) pos True show ?thesis
      by (simp add: p accounted_def count_list_remove1)
  next
    case False
    then have "i \<noteq> nat d" using d(1) by auto
    with that assms(1) False show ?thesis
      by (simp add: p accounted_def count_list_remove1)
  qed
  moreover have "0 \<le> x \<and> x < int (length (gpu_status p))"
    if "x \<in> set (remove1 d (leases t))" for x
    using that assms(1) notin_set_remove1 [of x "leases t" d] by (auto simp: p accounted_def)
  ultimately have "accounted (t\<lparr>pool := p, leases := remove1 d (leases t), misused := b\<rparr>)"
    by (simp add: accounted_def)
  with r show ?thesis by simp
qed

text \<open>Once a release has gone wrong the mark stays.\<close>

lemma run_misused:
  "run es t0 = Some (Inr t) \<Longrightarrow> misused t0 \<Longrightarrow> misused t"
proof (induction es arbitrary: t0)
  case Nil
  then show ?case by simp
next
  case (Cons e es)
  then show ?case
    by (cases e) (auto split: option.splits sum.splits prod.splits)
qed

lemma run_accounted:
  "run es t0 = Some (Inr t) \<Longrightarrow> \<not> misused t \<Longrightarrow> accounted t0 \<Longrightarrow>
     accounted t \<and> \<not> misused t0 \<and>
     int (length (leases t)) = int (length (leases t0)) + active es"
proof (induction es arbitrary: t0)
  case Nil
  then show ?case by simp
next
  case (Cons e es)
  show ?case
  proof (cases e)
    case Acquire
    with Cons.prems(1) obtain g p where
      a: "get_next_gpu (pool t0) = Some (Inr g, p)" and
      r: "run es (t0\<lparr>pool := p, returns := returns t0 @ [g], leases := int g # leases t0\<rparr>)
            = Some (Inr t)"
      by (auto split: option.splits sum.splits prod.splits)
    from Cons.IH [OF r Cons.prems(2) accounted_acquire [OF Cons.prems(3) a]] Acquire
    show ?thesis by simp
  next
    case (Release d)
    with Cons.prems(1) obtain p where
      a: "release (pool t0) d = (Inr (), p)" and
      r: "run es (t0\<lparr>pool := p, leases := remove1 d (leases t0),
                       misused := (misused t0 \<or> d \<notin> set (leases t0))\<rparr>) = Some (Inr t)"
      by (auto split: option.splits sum.splits prod.splits)
    from run_misused [OF r] Cons.prems(2) have
      m: "\<not> misused t0" and d: "d \<in> set (leases t0)"
      by auto
    from accounted_release [OF Cons.prems(3) d a] have
      "accounted (t0\<lparr>pool := p, leases := remove1 d (leases t0),
                       misused := (misused t0 \<or> d \<notin> set (leases t0))\<rparr>)"
      by simp
    moreover from d have "0 < length (leases t0)" by (rule length_pos_if_in_set)
    then have "int (length (leases t0) - Suc 0) = int (length (leases t0)) - 1"
      by (cases "leases t0") simp_all
    ultimately show ?thesis
      using Cons.IH [OF r Cons.prems(2)] Release m d by (simp add: length_remove1)
  qed
qed

lemma accounted_bounds:
  assumes "accounted t"
  shows "\<forall>x\<in>set (gpu_status (pool t)). 0 \<le> x \<and> x \<le> int (length (leases t))"
    and "sum_list (gpu_status (pool t)) = int (length (leases t))"
proof -
  let ?st = "gpu_status (pool t)"
  from assms have nth: "?st ! i = int (count_list (leases t) (int i))" if "i < length ?st" for i
    using that by (simp add: accounted_def)
  show "\<forall>x\<in>set ?st. 0 \<le> x \<and> x \<le> int (length (leases t))"
  proof
    fix x assume "x \<in> set ?st"
    then obtain i where "i < length ?st" "x = ?st ! i" by (auto simp: in_set_conv_nth)
    with nth [of i] count_le_length [of "leases t" "int i"]
    show "0 \<le> x \<and> x \<le> int (length (leases t))" by simp
  qed
  have sub: "set (leases t) \<subseteq> int ` {0..<length ?st}"
  proof
    fix x assume "x \<in> set (leases t)"
    with assms have "0 \<le> x" "x < int (length ?st)" by (auto simp: accounted_def)
    then have "nat x \<in> {0..<length ?st}" "x = int (nat x)" by auto
    then show "x \<in> int ` {0..<length ?st}" by (rule rev_image_eqI)
  qed
  have "sum_list ?st = (\<Sum>i = 0..<length ?st. ?st ! i)" by (rule sum_list_sum_nth)
  also have "\<dots> = (\<Sum>i = 0..<length ?st. int (count_list (leases t) (int i)))"
    by (rule sum.cong) (simp_all add: nth)
  also have "\<dots> = int (sum (count_list (leases t)) (int ` {0..<length ?st}))"
    by (simp add: sum.reindex)
  also have "\<dots> = int (length (leases t))"
    using sum_count_set [OF sub] by simp
  finally show "sum_list ?st = int (length (leases t))" .
qed

subsection \<open>No counter passes 2\<close>

lemma acquire_le_two:
  assumes "get_next_gpu self = Some (Inr g, self')" and "\<forall>x\<in>set (gpu_status self). x \<le> 2"
  shows "\<forall>x\<in>set (gpu_status self'). x \<le> 2"
proof -
  from get_next_gpu_SomeD [OF assms(1)] have
    s: "gpu_status self' = (gpu_status self)[g := gpu_status self ! g + 1]"
    and g: "gpu_status self ! g \<le> 1"
    by auto
  show ?thesis
  proof
    fix x assume "x \<in> set (gpu_status self')"
    with s set_update_subset_insert [of "gpu_status self" g "gpu_status self ! g + 1"]
    have "x = gpu_status self ! g + 1 \<or> x \<in> set (gpu_status self)" by auto
    with g assms(2) show "x \<le> 2" by auto
  qed
qed

lemma release_le_two:
  assumes "release self d = (Inr u, self')" and "\<forall>x\<in>set (gpu_status self). x \<le> 2"
  shows "\<forall>x\<in>set (gpu_status self'). x \<le> 2"
proof -
  from assms(1) obtain j where
    s: "gpu_status self' = (gpu_status self)[j := gpu_status self ! j - 1]"
    and j: "j < length (gpu_status self)"
    by (auto simp: release_def status_add_def Let_def split: if_splits)
  show ?thesis
  proof
    fix x assume "x \<in> set (gpu_status self')"
    with s set_update_subset_insert [of "gpu_status self" j "gpu_status self ! j - 1"]
    have "x = gpu_status self ! j - 1 \<or> x \<in> set (gpu_status self)" by auto
    moreover from j assms(2) have "gpu_status self ! j \<le> 2" by simp
    ultimately show "x \<le> 2" using assms(2) by auto
  qed
qed

lemma run_le_two:
  "run es t0 = Some (Inr t) \<Longrightarrow> \<forall>x\<in>set (gpu_status (pool t0)). x \<le> 2 \<Longrightarrow>
     \<forall>x\<in>set (gpu_status (pool t)). x \<le> 2"
proof (induction es arbitrary: t0)
  case Nil
  then show ?case by simp
next
  case (Cons e es)
  show ?case
  proof (cases e)
    case Acquire
    with Cons.prems(1) obtain g p where
      a: "get_next_gpu (pool t0) = Some (Inr g, p)" and
      r: "run es (t0\<lparr>pool := p, returns := returns t0 @ [g], leases := int g # leases t0\<rparr>)
            = Some (Inr t)"
      by (auto split: option.splits sum.splits prod.splits)
    from acquire_le_two [OF a Cons.prems(2)] show ?thesis
      by (intro Cons.IH [OF r]) simp
  next
    case (Release d)
    with Cons.prems(1) obtain p where
      a: "release (pool t0) d = (Inr (), p)" and
      r: "run es (t0\<lparr>pool := p, leases := remove1 d (leases t0),
                       misused := (misused t0 \<or> d \<notin> set (leases t0))\<rparr>) = Some (Inr t)"
      by (auto split: option.splits sum.splits prod.splits)
    from release_le_two [OF a Cons.prems(2)] show ?thesis
      by (intro Cons.IH [OF r]) simp
  qed
qed

subsection \<open>When an acquisition returns\<close>

text \<open>
  \<open>get_next_gpu\<close> returns exactly when some counter of the pool is at most 1; it then
  raises nothing and returns a position of the pool.
\<close>

lemma get_next_gpu_returns_iff:
  "if \<exists>x\<in>set (gpu_status self). x \<le> 1
   then \<exists>g self'. get_next_gpu self = Some (Inr g, self') \<and> g < length (gpu_status self)
   else get_next_gpu self = None"
proof (cases "\<exists>x\<in>set (gpu_status self). x \<le> 1")
  case True
  from get_next_gpu_SomeI [OF True] obtain r where r: "get_next_gpu self = Some r" ..
  from get_next_gpu_SomeD [OF r] r True show ?thesis by auto
next
  case False
  then have "\<forall>x\<in>set (gpu_status self). 1 < x" by auto
  then have "get_next_gpu self = None" by (simp only: get_next_gpu_None)
  with False show ?thesis by simp
qed

text \<open>
  On a fresh pool of one device, \<open>N\<close> acquisitions in a row all return device 0 and leave
  the counter at \<open>N\<close> when \<open>N\<close> is at most 2; with more, the third does not return.
\<close>

lemma acquisitions_in_a_row:
  "run (replicate N Acquire) (start (Objective_init use (Some 1))) =
     (if N \<le> 2
      then Some (Inr \<lparr>pool = \<lparr>use_gpus = use, num_gpus = 1, gpu_status = [int N]\<rparr>,
                       returns = replicate N 0, leases = replicate N 0, misused = False\<rparr>)
      else None)"
proof -
  consider "N = 0" | "N = 1" | "N = 2" | M where "N = Suc (Suc (Suc M))"
    by (metis One_nat_def Suc_1 not0_implies_Suc)
  then show ?thesis
  proof cases
    case 1
    then show ?thesis by (simp add: init_one start_def)
  next
    case 2
    then show ?thesis by (simp add: init_one start_def get_next_gpu_eval status_add_def)
  next
    case 3
    then show ?thesis
      by (simp add: numeral_2_eq_2 init_one start_def get_next_gpu_eval status_add_def)
  next
    case 4
    then show ?thesis by (simp add: acquire_third del: run.simps)
  qed
qed

section \<open>The claims\<close>

subsection \<open>C1: which device an acquisition returns\<close>

text \<open>
  C1 says that the device returned has the least counter of the pool. On the counters
  \<open>[1, 0]\<close>, which a pool of two reaches after one acquisition, \<open>get_next_gpu\<close> returns
  device 0, whose counter 1 is above the counter 0 of device 1.
\<close>

theorem C1_counterexample:
  "get_next_gpu \<lparr>use_gpus = True, num_gpus = 2, gpu_status = [1, 0]\<rparr>
     = Some (Inr 0, \<lparr>use_gpus = True, num_gpus = 2, gpu_status = [2, 0]\<rparr>)
   \<and> \<not> least_loaded [1, 0] 0"
  by (simp add: get_next_gpu_eval status_add_def least_loaded_def)

text \<open>
  C1, amended: whenever \<open>get_next_gpu\<close> returns, it returns the first device whose counter
  is at most 1 and increments that counter. The counter need not be the least one; it is
  the least one, at the lowest position, whenever no counter of the pool is below 1, as
  with the counters \<open>[2, 1, 1]\<close>, where device 1 is returned.
\<close>

theorem C1_first_at_most_one:
  assumes "get_next_gpu self = Some (r, self')"
  shows "\<exists>g. r = Inr g \<and> g < length (gpu_status self) \<and> gpu_status self ! g \<le> 1
           \<and> (\<forall>k<g. 1 < gpu_status self ! k)
           \<and> gpu_status self' = (gpu_status self)[g := gpu_status self ! g + 1]
           \<and> ((\<forall>x\<in>set (gpu_status self). 1 \<le> x) \<longrightarrow> least_loaded (gpu_status self) g)"
proof -
  from get_next_gpu_SomeD [OF assms] obtain g where
    g: "r = Inr g" "self' = self\<lparr>gpu_status := (gpu_status self)[g := gpu_status self ! g + 1]\<rparr>"
       "g < length (gpu_status self)" "gpu_status self ! g \<le> 1" "\<forall>k<g. 1 < gpu_status self ! k"
    by auto
  have "least_loaded (gpu_status self) g" if "\<forall>x\<in>set (gpu_status self). 1 \<le> x"
  proof -
    have "1 \<le> gpu_status self ! k" if "k < length (gpu_status self)" for k
      using that \<open>\<forall>x\<in>set (gpu_status self). 1 \<le> x\<close> nth_mem by blast
    with g(3-5) show ?thesis by (fastforce simp: least_loaded_iff)
  qed
  with g show ?thesis by auto
qed

text \<open>The amended C1 on the counters \<open>[2, 1, 1]\<close> of the specification's example.\<close>

theorem C1_witness:
  "get_next_gpu \<lparr>use_gpus = True, num_gpus = 3, gpu_status = [2, 1, 1]\<rparr>
     = Some (Inr 1, \<lparr>use_gpus = True, num_gpus = 3, gpu_status = [2, 2, 1]\<rparr>)
   \<and> list_all (\<lambda>x. 1 \<le> x) [2, 1, 1::int] \<and> least_loaded [2, 1, 1] 1"
proof -
  have h: "get_next_gpu \<lparr>use_gpus = True, num_gpus = 3, gpu_status = [2, 1, 1]\<rparr>
     = Some (Inr 1, \<lparr>use_gpus = True, num_gpus = 3, gpu_status = [2, 2, 1]\<rparr>)"
    by (simp add: get_next_gpu_eval status_add_def)
  from C1_first_at_most_one [OF h] show ?thesis using h by simp
qed

subsection \<open>C2: when an acquisition returns\<close>

text \<open>
  C2 says that \<open>get_next_gpu\<close> returns for every pool of at least one device, whatever the
  counters. The code does not: on a pool of one device whose counter is 2, a state that two
  acquisitions in a row produce, the loop searches with the same bound 1 in every round
  and never leaves.
\<close>

theorem C2_no_return_at_counter_two:
  "get_next_gpu \<lparr>use_gpus = True, num_gpus = 1, gpu_status = [2]\<rparr> = None"
  by (simp add: get_next_gpu_eval)

subsection \<open>C3: a release that matches no lease\<close>

text \<open>
  C3 says that the release of a device that holds no lease fails and changes nothing. On
  a pool of one device with counter 0, the release of device 0 raises nothing and leaves the
  counter at -1.
\<close>

theorem C3_counterexample:
  "release \<lparr>use_gpus = True, num_gpus = 1, gpu_status = [0]\<rparr> 0
     = (Inr (), \<lparr>use_gpus = True, num_gpus = 1, gpu_status = [- 1]\<rparr>)"
  by (simp add: release_def status_add_def)

text \<open>
  C3, amended: a release fails only when its id is outside \<open>[-num_devices, num_devices)\<close>;
  it then raises \<open>IndexError\<close> and leaves the object as it was. With an id inside that range
  it never fails, whether the device is leased or not: it decrements the counter at that
  position, counted from the end for a negative id, also below zero.
\<close>

theorem C3_release_fails_only_outside_list:
  "release self d =
     (if - int (length (gpu_status self)) \<le> d \<and> d < int (length (gpu_status self))
      then (Inr (), self\<lparr>gpu_status :=
              (gpu_status self)
                [nat (if d < 0 then int (length (gpu_status self)) + d else d) :=
                 gpu_status self ! nat (if d < 0 then int (length (gpu_status self)) + d else d)
                   - 1]\<rparr>)
      else (Inl IndexError, self))"
  by (auto simp: release_def status_add_def Let_def)

text \<open>The amended C3 on a pool of two devices: id 2 is outside, id 1 is not leased.\<close>

theorem C3_witness:
  "release \<lparr>use_gpus = True, num_gpus = 2, gpu_status = [1, 0]\<rparr> 2
     = (Inl IndexError, \<lparr>use_gpus = True, num_gpus = 2, gpu_status = [1, 0]\<rparr>)
   \<and> release \<lparr>use_gpus = True, num_gpus = 2, gpu_status = [1, 0]\<rparr> 1
     = (Inr (), \<lparr>use_gpus = True, num_gpus = 2, gpu_status = [1, - 1]\<rparr>)"
  using C3_release_fails_only_outside_list
          [of "\<lparr>use_gpus = True, num_gpus = 2, gpu_status = [1, 0]\<rparr>" 2]
        C3_release_fails_only_outside_list
          [of "\<lparr>use_gpus = True, num_gpus = 2, gpu_status = [1, 0]\<rparr>" 1]
  by simp

subsection \<open>C4: the counters under the lease discipline\<close>

text \<open>
  C4: take any schedule of acquisitions and releases on a fresh pool in which every
  release names a device with an outstanding lease, and let it run to its end. Then every
  counter is at least 0 and at most the number of active leases, the counters add up to
  that number, and that number is the count of acquisitions less the count of releases.
\<close>

theorem C4_counters_match_active_leases:
  assumes "run es (start (Objective_init use n)) = Some (Inr t)" and "\<not> misused t"
  shows "(\<forall>x\<in>set (gpu_status (pool t)). 0 \<le> x \<and> x \<le> active es) \<and>
         sum_list (gpu_status (pool t)) = active es \<and>
         int (length (leases t)) = active es"
proof -
  from run_accounted [OF assms accounted_start] have
    a: "accounted t" and l: "int (length (leases t)) = active es"
    by (simp_all add: start_def)
  from accounted_bounds [OF a] l show ?thesis by simp
qed

text \<open>C4 on a schedule of four acquisitions and two releases over two devices.\<close>

theorem C4_witness:
  "run [Acquire, Acquire, Release 0, Acquire, Acquire, Release 1]
       (start (Objective_init True (Some 2)))
     = Some (Inr \<lparr>pool = \<lparr>use_gpus = True, num_gpus = 2, gpu_status = [2, 0]\<rparr>,
                  returns = [0, 0, 0, 1], leases = [0, 0], misused = False\<rparr>)
   \<and> list_all (\<lambda>x. 0 \<le> x \<and> x \<le> 2) [2, 0::int] \<and> sum_list [2, 0::int] = 2"
proof -
  have r: "run [Acquire, Acquire, Release 0, Acquire, Acquire, Release 1]
       (start (Objective_init True (Some 2)))
     = Some (Inr \<lparr>pool = \<lparr>use_gpus = True, num_gpus = 2, gpu_status = [2, 0]\<rparr>,
                  returns = [0, 0, 0, 1], leases = [0, 0], misused = False\<rparr>)"
    by (simp add: init_two start_def get_next_gpu_eval status_add_def release_def)
  from C4_counters_match_active_leases [OF r] r show ?thesis by simp
qed

subsection \<open>C5: release after acquire\<close>

text \<open>
  C5: every acquisition that returns, followed at once by the release of the id it
  returned, leaves the object as it was before the acquisition. The acquisitions that do
  not return are those on a pool whose counters are all above 1.
\<close>

theorem C5_release_undoes_acquire:
  "(get_next_gpu self = None \<longleftrightarrow> (\<forall>x\<in>set (gpu_status self). 1 < x)) \<and>
   (\<forall>r self'. get_next_gpu self = Some (r, self') \<longrightarrow>
        (\<exists>g. r = Inr g \<and> release self' (int g) = (Inr (), self)))"
proof (intro conjI allI impI)
  show "get_next_gpu self = None \<longleftrightarrow> (\<forall>x\<in>set (gpu_status self). 1 < x)"
    by (rule get_next_gpu_None)
next
  fix r self'
  assume "get_next_gpu self = Some (r, self')"
  from get_next_gpu_SomeD [OF this] obtain g where
    "r = Inr g" "self' = self\<lparr>gpu_status := (gpu_status self)[g := gpu_status self ! g + 1]\<rparr>"
    "g < length (gpu_status self)"
    by auto
  then show "\<exists>g. r = Inr g \<and> release self' (int g) = (Inr (), self)"
    by (auto simp: release_after_acquire)
qed

text \<open>C5 on the counters \<open>[2, 0, 1]\<close>.\<close>

theorem C5_witness:
  "get_next_gpu \<lparr>use_gpus = True, num_gpus = 3, gpu_status = [2, 0, 1]\<rparr>
      = Some (Inr 1, \<lparr>use_gpus = True, num_gpus = 3, gpu_status = [2, 1, 1]\<rparr>)
   \<and> release \<lparr>use_gpus = True, num_gpus = 3, gpu_status = [2, 1, 1]\<rparr> (int 1)
      = (Inr (), \<lparr>use_gpus = True, num_gpus = 3, gpu_status = [2, 0, 1]\<rparr>)"
proof -
  have h: "get_next_gpu \<lparr>use_gpus = True, num_gpus = 3, gpu_status = [2, 0, 1]\<rparr>
      = Some (Inr 1, \<lparr>use_gpus = True, num_gpus = 3, gpu_status = [2, 1, 1]\<rparr>)"
    by (simp add: get_next_gpu_eval status_add_def)
  from C5_release_undoes_acquire [of "\<lparr>use_gpus = True, num_gpus = 3, gpu_status = [2, 0, 1]\<rparr>"] h
  show ?thesis by auto
qed

subsection \<open>C6: acquisitions in a row on one device\<close>

text \<open>
  C6 says that on a pool of one device any number of acquisitions in a row return
  device 0. The code does not: of three acquisitions on a fresh pool of one device, the
  third finds the counter at 2 and does not return.
\<close>

theorem C6_third_acquisition_no_return:
  "run (replicate 3 Acquire) (start (Objective_init True (Some 1))) = None"
  by (simp add: numeral_3_eq_3 acquire_third del: run.simps)

subsection \<open>C7: the trace on two devices\<close>

text \<open>
  C7 says that on a fresh pool of two devices three acquisitions return 0, 1, 0 and that
  the release of the first id returned leaves the counters \<open>[0, 1]\<close>. The run shows
  neither.
\<close>

theorem C7_counterexample:
  "observed (run [Acquire, Acquire, Acquire, Release 0] (start (Objective_init True (Some 2))))
     \<noteq> Some ([0, 1, 0], [0, 1])"
  by (simp add: observed_def init_two start_def get_next_gpu_eval status_add_def release_def)

text \<open>
  C7, amended: on a fresh pool of two devices, three acquisitions return 0, 0, 1 in that
  order: the second still finds the counter of device 0 at 1. The first id returned is 0,
  and after its release the counters are \<open>[1, 1]\<close>, two leases being outstanding.
\<close>

theorem C7_trace:
  "run [Acquire, Acquire, Acquire, Release 0] (start (Objective_init use (Some 2)))
     = Some (Inr \<lparr>pool = \<lparr>use_gpus = use, num_gpus = 2, gpu_status = [1, 1]\<rparr>,
                  returns = [0, 0, 1], leases = [1, 0], misused = False\<rparr>)"
  by (simp add: init_two start_def get_next_gpu_eval status_add_def release_def)

subsection \<open>C8: a trial that fails\<close>

text \<open>
  C8 says that a trial whose training raises still gives its device back. The first trial
  on a fresh pool of one device, with a training that raises, leaves the counter at 1.
\<close>

theorem C8_counterexample:
  "Objective_call (Objective_init True (Some 1)) (Inl TrialError :: error + int)
     = Some (Inl TrialError, \<lparr>use_gpus = True, num_gpus = 1, gpu_status = [1]\<rparr>)"
  by (simp add: Objective_call_def Objective_init_def get_next_gpu_eval status_add_def)

text \<open>
  C8, amended: a trial that acquires a device gives it back when its training and scoring
  return: the trial then returns the score and leaves every counter as it found it. When
  the training or the scoring raises, the exception leaves \<open>__call__\<close> before the
  decrement, and the counter of the device stays one above its value before the trial.
\<close>

theorem C8_release_on_success_only:
  assumes "use_gpus self" and "get_next_gpu self = Some (Inr g, self1)"
  shows "Objective_call self (Inr score) = Some (Inr score, self)
       \<and> Objective_call self (Inl e) = Some (Inl e, self1)
       \<and> gpu_status self1 = (gpu_status self)[g := gpu_status self ! g + 1]
       \<and> g < length (gpu_status self)"
proof -
  from get_next_gpu_SomeD [OF assms(2)] have
    g: "self1 = self\<lparr>gpu_status := (gpu_status self)[g := gpu_status self ! g + 1]\<rparr>"
       "g < length (gpu_status self)"
    by auto
  then have "release self1 (int g) = (Inr (), self)" by (simp add: release_after_acquire)
  with assms g show ?thesis by (simp add: Objective_call_def)
qed

text \<open>The amended C8 on the counters \<open>[1, 0]\<close>, with a score of 7.\<close>

theorem C8_witness:
  "Objective_call \<lparr>use_gpus = True, num_gpus = 2, gpu_status = [1, 0]\<rparr> (Inr (7::int))
     = Some (Inr 7, \<lparr>use_gpus = True, num_gpus = 2, gpu_status = [1, 0]\<rparr>)
   \<and> Objective_call \<lparr>use_gpus = True, num_gpus = 2, gpu_status = [1, 0]\<rparr>
         (Inl TrialError :: error + int)
     = Some (Inl TrialError, \<lparr>use_gpus = True, num_gpus = 2, gpu_status = [2, 0]\<rparr>)"
proof -
  have u: "use_gpus \<lparr>use_gpus = True, num_gpus = 2, gpu_status = [1, 0]\<rparr>" by simp
  have h: "get_next_gpu \<lparr>use_gpus = True, num_gpus = 2, gpu_status = [1, 0]\<rparr>
      = Some (Inr 0, \<lparr>use_gpus = True, num_gpus = 2, gpu_status = [2, 0]\<rparr>)"
    by (simp add: get_next_gpu_eval status_add_def)
  from C8_release_on_success_only [OF u h, of "7::int" TrialError]
  show ?thesis by simp
qed

subsection \<open>C9: no counter passes 2\<close>

text \<open>
  C9: whenever \<open>get_next_gpu\<close> returns a device, the counter of that device was at most 1
  and is one more afterwards; and after any schedule of acquisitions and releases on a
  fresh pool of any size, no counter is above 2.
\<close>

theorem C9_counters_capped_at_two:
  "(get_next_gpu self = Some (Inr g, self') \<longrightarrow>
      gpu_status self ! g \<le> 1 \<and>
      gpu_status self' = (gpu_status self)[g := gpu_status self ! g + 1]) \<and>
   (run es (start (Objective_init use n)) = Some (Inr t) \<longrightarrow>
      (\<forall>x\<in>set (gpu_status (pool t)). x \<le> 2))"
proof (rule conjI; rule impI)
  assume "get_next_gpu self = Some (Inr g, self')"
  from get_next_gpu_SomeD [OF this]
  show "gpu_status self ! g \<le> 1 \<and>
      gpu_status self' = (gpu_status self)[g := gpu_status self ! g + 1]" by auto
next
  assume "run es (start (Objective_init use n)) = Some (Inr t)"
  then show "\<forall>x\<in>set (gpu_status (pool t)). x \<le> 2"
    by (rule run_le_two) (simp add: start_def Objective_init_def Let_def)
qed

text \<open>C9 on the counters \<open>[2, 1]\<close> and on four acquisitions over two devices.\<close>

theorem C9_witness:
  "get_next_gpu \<lparr>use_gpus = True, num_gpus = 2, gpu_status = [2, 1]\<rparr>
     = Some (Inr 1, \<lparr>use_gpus = True, num_gpus = 2, gpu_status = [2, 2]\<rparr>)
   \<and> [2, 1::int] ! 1 \<le> 1
   \<and> run [Acquire, Acquire, Acquire, Acquire] (start (Objective_init True (Some 2)))
       = Some (Inr \<lparr>pool = \<lparr>use_gpus = True, num_gpus = 2, gpu_status = [2, 2]\<rparr>,
                    returns = [0, 0, 1, 1], leases = [1, 1, 0, 0], misused = False\<rparr>)
   \<and> list_all (\<lambda>x. x \<le> 2) [2, 2::int]"
proof -
  have a: "get_next_gpu \<lparr>use_gpus = True, num_gpus = 2, gpu_status = [2, 1]\<rparr>
     = Some (Inr 1, \<lparr>use_gpus = True, num_gpus = 2, gpu_status = [2, 2]\<rparr>)"
    by (simp add: get_next_gpu_eval status_add_def)
  have r: "run [Acquire, Acquire, Acquire, Acquire] (start (Objective_init True (Some 2)))
       = Some (Inr \<lparr>pool = \<lparr>use_gpus = True, num_gpus = 2, gpu_status = [2, 2]\<rparr>,
                    returns = [0, 0, 1, 1], leases = [1, 1, 0, 0], misused = False\<rparr>)"
    by (simp add: init_two start_def get_next_gpu_eval status_add_def)
  from C9_counters_capped_at_two
         [of "\<lparr>use_gpus = True, num_gpus = 2, gpu_status = [2, 1]\<rparr>" 1
             "\<lparr>use_gpus = True, num_gpus = 2, gpu_status = [2, 2]\<rparr>"
             "[Acquire, Acquire, Acquire, Acquire]" True "Some 2"
             "\<lparr>pool = \<lparr>use_gpus = True, num_gpus = 2, gpu_status = [2, 2]\<rparr>,
                returns = [0, 0, 1, 1], leases = [1, 1, 0, 0], misused = False\<rparr>"] a r
  show ?thesis by simp
qed

subsection \<open>C10: the release of a negative id\<close>

text \<open>
  C10: the release of a negative id that is at least \<open>-num_devices\<close> raises nothing; it
  decrements the counter of the device at that distance from the end of the pool. In
  particular the release of -1 decrements the counter of the last device.
\<close>

theorem C10_negative_id_counts_from_end:
  assumes "- int (length (gpu_status self)) \<le> d" and "d < 0"
  shows "release self d =
           (Inr (), self\<lparr>gpu_status :=
              (gpu_status self)[nat (int (length (gpu_status self)) + d) :=
                 gpu_status self ! nat (int (length (gpu_status self)) + d) - 1]\<rparr>)
       \<and> (d = - 1 \<longrightarrow> release self d =
           (Inr (), self\<lparr>gpu_status :=
              (gpu_status self)[length (gpu_status self) - 1 := last (gpu_status self) - 1]\<rparr>))"
proof (rule conjI)
  show 1: "release self d =
           (Inr (), self\<lparr>gpu_status :=
              (gpu_status self)[nat (int (length (gpu_status self)) + d) :=
                 gpu_status self ! nat (int (length (gpu_status self)) + d) - 1]\<rparr>)"
    using assms by (simp add: release_def status_add_def Let_def)
  show "d = - 1 \<longrightarrow> release self d =
           (Inr (), self\<lparr>gpu_status :=
              (gpu_status self)[length (gpu_status self) - 1 := last (gpu_status self) - 1]\<rparr>)"
  proof
    assume "d = - 1"
    moreover from this assms have "gpu_status self \<noteq> []" by auto
    moreover have "nat (int (length (gpu_status self)) - 1) = length (gpu_status self) - 1"
      by simp
    ultimately show "release self d =
           (Inr (), self\<lparr>gpu_status :=
              (gpu_status self)[length (gpu_status self) - 1 := last (gpu_status self) - 1]\<rparr>)"
      using 1 by (simp add: last_conv_nth)
  qed
qed

text \<open>C10 on a pool of three devices: the release of -1 decrements device 2.\<close>

theorem C10_witness:
  "- int (length [1, 0, 1::int]) \<le> - 1 \<and> (- 1::int) < 0
   \<and> release \<lparr>use_gpus = True, num_gpus = 3, gpu_status = [1, 0, 1]\<rparr> (- 1)
       = (Inr (), \<lparr>use_gpus = True, num_gpus = 3, gpu_status = [1, 0, 0]\<rparr>)"
  using C10_negative_id_counts_from_end
          [of "\<lparr>use_gpus = True, num_gpus = 3, gpu_status = [1, 0, 1]\<rparr>" "- 1"]
  by simp

end
